theory Spec2Isabelle
  imports Main "HOL-Library.List_Lexorder"
begin

unbundle bit_operations_syntax

section \<open>Python values\<close>

text \<open>
  A Python \<open>str\<close> is a sequence of Unicode code points and a \<open>bytes\<close> object a
  sequence of integers below 256; both are lists of naturals here. \<open>str\<close> turns an
  ASCII literal into its code points.
\<close>

type_synonym pystr = "nat list"
type_synonym bytes = "nat list"

definition str :: "string \<Rightarrow> pystr" where
  "str s = map of_char s"

text \<open>The exceptions the library calls below can raise.\<close>

datatype py_error =
  Non_ascii | Incorrect_padding | Non_base32_digit | Overflow_error | Unicode_encode_error

text \<open>
  \<open>str.upper()\<close> works code point by code point. On ASCII it maps \<open>a..z\<close> to
  \<open>A..Z\<close> and leaves everything else alone; beyond ASCII it follows the Unicode
  upper-case table, which can give several code points for one. That table is the
  parameter \<open>U\<close>.
\<close>

definition upper_cp :: "(nat \<Rightarrow> nat list) \<Rightarrow> nat \<Rightarrow> nat list" where
  "upper_cp U c = (if c < 128 then (if 97 \<le> c \<and> c \<le> 122 then [c - 32] else [c]) else U c)"

definition upper :: "(nat \<Rightarrow> nat list) \<Rightarrow> pystr \<Rightarrow> pystr" where
  "upper U s = concat (map (upper_cp U) s)"

text \<open>\<open>s.replace(' ', '')\<close>: every occurrence of U+0020 is removed, nothing else.\<close>

definition replace_space :: "pystr \<Rightarrow> pystr" where
  "replace_space s = filter (\<lambda>c. c \<noteq> 32) s"

text \<open>
  The first statement of \<open>add_secret\<close> and of \<open>update_secret\<close>:
  \<open>secret.replace(' ', '').upper()\<close>.
\<close>

definition normalize_secret :: "(nat \<Rightarrow> nat list) \<Rightarrow> pystr \<Rightarrow> pystr" where
  "normalize_secret U raw = upper U (replace_space raw)"

text \<open>\<open>str(n)\<close> for a non-negative integer: its decimal digits.\<close>

function str_nat :: "nat \<Rightarrow> pystr" where
  "str_nat n = (if n < 10 then [48 + n] else str_nat (n div 10) @ [48 + n mod 10])"
  by pat_completeness auto
termination
  by (relation "measure (\<lambda>n. n)") auto

declare str_nat.simps [simp del]

section \<open>Base32 decoding (\<open>base64.b32decode\<close> with \<open>casefold=True\<close>)\<close>

text \<open>The reverse table of the alphabet \<open>A..Z2..7\<close>; a miss is Python's \<open>KeyError\<close>.\<close>

definition b32rev :: "nat \<Rightarrow> nat option" where
  "b32rev c = (if 65 \<le> c \<and> c \<le> 90 then Some (c - 65)
               else if 50 \<le> c \<and> c \<le> 55 then Some (c - 24) else None)"

text \<open>\<open>bytes.upper()\<close> only touches ASCII letters.\<close>

definition upper_ascii :: "nat \<Rightarrow> nat" where
  "upper_ascii c = (if 97 \<le> c \<and> c \<le> 122 then c - 32 else c)"

definition rstrip_pad :: "bytes \<Rightarrow> bytes" where
  "rstrip_pad s = rev (dropWhile (\<lambda>c. c = 61) (rev s))"

text \<open>\<open>acc.to_bytes(5)\<close>, big endian; Python raises when the value needs more bytes.\<close>

definition to_bytes5 :: "nat \<Rightarrow> py_error + bytes" where
  "to_bytes5 a = (if a < 1099511627776
     then Inr [a div 4294967296 mod 256, a div 16777216 mod 256, a div 65536 mod 256,
               a div 256 mod 256, a mod 256]
     else Inl Overflow_error)"

text \<open>The inner loop \<open>for c in quanta: acc = (acc << 5) + b32rev[c]\<close>.\<close>

fun quantum_acc :: "bytes \<Rightarrow> nat \<Rightarrow> nat option" where
  "quantum_acc [] acc = Some acc"
| "quantum_acc (c # cs) acc =
     (case b32rev c of None \<Rightarrow> None | Some v \<Rightarrow> quantum_acc cs (push_bit 5 acc + v))"

text \<open>
  The outer loop \<open>for i in range(0, len(s), 8)\<close> over the quanta \<open>s[i:i+8]\<close>; the
  state is \<open>decoded\<close> and the \<open>acc\<close> of the last quantum.
\<close>

fun decode_loop :: "bytes \<Rightarrow> bytes \<times> nat \<Rightarrow> py_error + bytes \<times> nat" where
  "decode_loop [] st = Inr st"
| "decode_loop (c # cs) (decoded, acc0) =
     (case quantum_acc (take 8 (c # cs)) 0 of
        None \<Rightarrow> Inl Non_base32_digit
      | Some acc \<Rightarrow>
          (case to_bytes5 acc of
             Inl e \<Rightarrow> Inl e
           | Inr b \<Rightarrow> decode_loop (drop 8 (c # cs)) (decoded @ b, acc)))"

definition b32decode :: "pystr \<Rightarrow> py_error + bytes" where
  "b32decode s0 =
    (if list_ex (\<lambda>c. 128 \<le> c) s0 then Inl Non_ascii
     else if length s0 mod 8 \<noteq> 0 then Inl Incorrect_padding
     else
       (let s1 = map upper_ascii s0;
            l = length s1;
            s = rstrip_pad s1;
            padchars = l - length s
        in case decode_loop s ([], 0) of
             Inl e \<Rightarrow> Inl e
           | Inr (decoded, acc) \<Rightarrow>
               if l mod 8 \<noteq> 0 \<or> padchars \<notin> {0, 1, 3, 4, 6} then Inl Incorrect_padding
               else if padchars \<noteq> 0 \<and> decoded \<noteq> [] then
                 (case to_bytes5 (push_bit (5 * padchars) acc) of
                    Inl e \<Rightarrow> Inl e
                  | Inr lst \<Rightarrow>
                      Inr (take (length decoded - 5) decoded
                           @ take ((43 - 5 * padchars) div 8) lst))
               else Inr decoded))"

section \<open>SHA-1 and HMAC (\<open>hashlib.sha1\<close>, \<open>hmac.new\<close>)\<close>

text \<open>
  The program reaches both through \<open>pyotp\<close>; they are the algorithms of RFC 3174 and
  RFC 2104. 32-bit words are naturals below \<open>2 ^ 32\<close>, with the wrap-around written
  out.
\<close>

definition rotl :: "nat \<Rightarrow> nat \<Rightarrow> nat" where
  "rotl n x = (x * 2 ^ n) mod 4294967296 + x div 2 ^ (32 - n)"

definition word_of_bytes :: "nat \<Rightarrow> nat \<Rightarrow> nat \<Rightarrow> nat \<Rightarrow> nat" where
  "word_of_bytes a b c d = a * 16777216 + b * 65536 + c * 256 + d"

fun words_of_bytes :: "bytes \<Rightarrow> nat list" where
  "words_of_bytes (a # b # c # d # r) = word_of_bytes a b c d # words_of_bytes r"
| "words_of_bytes _ = []"

definition bytes_of_word :: "nat \<Rightarrow> bytes" where
  "bytes_of_word w = [w div 16777216 mod 256, w div 65536 mod 256, w div 256 mod 256, w mod 256]"

text \<open>
  The message schedule, built most recent word first: \<open>W t\<close> is the rotation of
  \<open>W (t-3) XOR W (t-8) XOR W (t-14) XOR W (t-16)\<close>.
\<close>

fun expand :: "nat \<Rightarrow> nat list \<Rightarrow> nat list" where
  "expand 0 r = r"
| "expand (Suc n) r = expand n (rotl 1 (r ! 2 XOR r ! 7 XOR r ! 13 XOR r ! 15) # r)"

definition schedule :: "bytes \<Rightarrow> nat list" where
  "schedule block = rev (expand 64 (rev (words_of_bytes block)))"

definition sha_f :: "nat \<Rightarrow> nat \<Rightarrow> nat \<Rightarrow> nat \<Rightarrow> nat" where
  "sha_f t b c d =
    (if t < 20 then (b AND c) OR ((b XOR 4294967295) AND d)
     else if t < 40 then b XOR c XOR d
     else if t < 60 then (b AND c) OR (b AND d) OR (c AND d)
     else b XOR c XOR d)"

definition sha_K :: "nat \<Rightarrow> nat" where
  "sha_K t = (if t < 20 then 0x5A827999 else if t < 40 then 0x6ED9EBA1
          else if t < 60 then 0x8F1BBCDC else 0xCA62C1D6)"

type_synonym sha_state = "nat \<times> nat \<times> nat \<times> nat \<times> nat"

fun rounds :: "nat \<Rightarrow> nat list \<Rightarrow> sha_state \<Rightarrow> sha_state" where
  "rounds t [] s = s"
| "rounds t (w # ws) (a, b, c, d, e) =
     rounds (t + 1) ws
       ((rotl 5 a + sha_f t b c d + e + w + sha_K t) mod 4294967296, a, rotl 30 b, c, d)"

fun add_state :: "sha_state \<Rightarrow> sha_state \<Rightarrow> sha_state" where
  "add_state (a, b, c, d, e) (a', b', c', d', e') =
    ((a + a') mod 4294967296, (b + b') mod 4294967296, (c + c') mod 4294967296,
     (d + d') mod 4294967296, (e + e') mod 4294967296)"

definition compress :: "sha_state \<Rightarrow> bytes \<Rightarrow> sha_state" where
  "compress h block = add_state h (rounds 0 (schedule block) h)"

fun blocks :: "nat \<Rightarrow> bytes \<Rightarrow> bytes list" where
  "blocks 0 bs = []"
| "blocks (Suc n) bs = take 64 bs # blocks n (drop 64 bs)"

definition be64 :: "nat \<Rightarrow> bytes" where
  "be64 n = map (\<lambda>i. n div 256 ^ i mod 256) [7, 6, 5, 4, 3, 2, 1, 0]"

definition pad :: "bytes \<Rightarrow> bytes" where
  "pad m = m @ [128] @ replicate ((119 - length m mod 64) mod 64) 0 @ be64 (8 * length m)"

definition sha_init :: sha_state where
  "sha_init = (0x67452301, 0xEFCDAB89, 0x98BADCFE, 0x10325476, 0xC3D2E1F0)"

fun digest_of :: "sha_state \<Rightarrow> bytes" where
  "digest_of (a, b, c, d, e) = concat (map bytes_of_word [a, b, c, d, e])"

definition sha1 :: "bytes \<Rightarrow> bytes" where
  "sha1 m = digest_of (foldl compress sha_init (blocks (length (pad m) div 64) (pad m)))"

text \<open>
  \<open>hmac.new(key, msg, sha1).digest()\<close>: a key longer than the block is hashed
  first, then padded with zero bytes to the block size of 64.
\<close>

definition hmac_sha1 :: "bytes \<Rightarrow> bytes \<Rightarrow> bytes" where
  "hmac_sha1 key msg =
    (let k = (if 64 < length key then sha1 key else key);
         k0 = k @ replicate (64 - length k) 0
     in sha1 (map (\<lambda>b. b XOR 92) k0 @ sha1 (map (\<lambda>b. b XOR 54) k0 @ msg)))"

section \<open>One-time passwords (\<open>pyotp.TOTP\<close>)\<close>

text \<open>
  \<open>byte_secret\<close>: the secret is right-padded with \<open>=\<close> to a multiple of 8
  characters and decoded.
\<close>

definition byte_secret :: "pystr \<Rightarrow> py_error + bytes" where
  "byte_secret secret =
    (let missing_padding = length secret mod 8
     in b32decode (if missing_padding \<noteq> 0
                   then secret @ replicate (8 - missing_padding) 61 else secret))"

text \<open>
  \<open>int_to_bytestring\<close>: the bytes of the counter, least significant first, then
  reversed and left-padded with zero bytes to 8.
\<close>

function le_bytes :: "nat \<Rightarrow> bytes" where
  "le_bytes i = (if i = 0 then [] else (i AND 255) # le_bytes (drop_bit 8 i))"
  by pat_completeness auto
termination
  by (relation "measure (\<lambda>i. i)") (auto simp: drop_bit_eq_div)

declare le_bytes.simps [simp del]

definition int_to_bytestring :: "nat \<Rightarrow> bytes" where
  "int_to_bytestring i = (let r = rev (le_bytes i) in replicate (8 - length r) 0 @ r)"

text \<open>
  The dynamic truncation of \<open>generate_otp\<close>: the low nibble of the last byte of the
  digest selects four bytes, the top bit of the first is masked.
\<close>

definition truncate_digest :: "bytes \<Rightarrow> nat" where
  "truncate_digest hmac_hash =
    (let offset = last hmac_hash AND 15
     in push_bit 24 (hmac_hash ! offset AND 127)
        OR push_bit 16 (hmac_hash ! (offset + 1) AND 255)
        OR push_bit 8 (hmac_hash ! (offset + 2) AND 255)
        OR (hmac_hash ! (offset + 3) AND 255))"

text \<open>
  \<open>generate_otp\<close> with 6 digits: the last six characters of
  \<open>str(10_000_000_000 + code % 10**6)\<close>.
\<close>

definition generate_otp :: "pystr \<Rightarrow> nat \<Rightarrow> py_error + pystr" where
  "generate_otp secret input =
    (case byte_secret secret of
       Inl e \<Rightarrow> Inl e
     | Inr key \<Rightarrow>
         (let code = truncate_digest (hmac_sha1 key (int_to_bytestring input));
              str_code = str_nat (10000000000 + code mod 10 ^ 6)
          in Inr (drop (length str_code - 6) str_code)))"

text \<open>
  \<open>timecode\<close> applies \<open>time.mktime\<close> to the naive local \<open>datetime\<close> it is
  given, divides by the interval of 30 seconds and drops the fraction. Its argument here,
  \<open>clock\<close>, is the value \<open>time.mktime\<close> returns: whole seconds, a natural
  number; for every time a \<open>datetime\<close> can hold the floating-point quotient has the
  integer part \<open>clock div 30\<close>. How that reading comes from the Unix time and the
  time zone of the process is \<open>mktime_now\<close> below.
\<close>

definition timecode :: "nat \<Rightarrow> nat" where
  "timecode clock = clock div 30"

definition totp_now :: "nat \<Rightarrow> pystr \<Rightarrow> py_error + pystr" where
  "totp_now clock secret = generate_otp secret (timecode clock)"

text \<open>
  \<open>TOTPManager.get_totp\<close>: \<open>pyotp.TOTP(secret).now()\<close>, with \<open>clock\<close> the
  reading \<open>time.mktime\<close> gives for \<open>datetime.now()\<close>.
\<close>

definition get_totp :: "nat \<Rightarrow> pystr \<Rightarrow> py_error + pystr" where
  "get_totp clock secret = totp_now clock secret"

subsection \<open>The clock reading\<close>

text \<open>
  \<open>datetime.now()\<close> is the local wall-clock time without a zone, and
  \<open>time.mktime\<close> turns it back into seconds since the epoch. When the zone sets its
  clocks back, the wall-clock times of that period occur twice, and \<open>time.mktime\<close>
  resolves them to the first pass. So the round trip returns the Unix time, except in the
  second pass of a repeated period, where it returns the Unix time less the amount the
  clocks were set back.

  A zone is the list of its set-backs: the Unix time at which the clocks go back and by
  how many seconds. A set-back that would reach before the epoch is none.
\<close>

type_synonym zone = "(nat \<times> nat) list"

definition second_pass :: "nat \<Rightarrow> nat \<times> nat \<Rightarrow> bool" where
  "second_pass t sb = (case sb of (i, a) \<Rightarrow> a \<le> i \<and> i \<le> t \<and> t < i + a)"

definition in_repeated_hour :: "zone \<Rightarrow> nat \<Rightarrow> bool" where
  "in_repeated_hour z t = list_ex (second_pass t) z"

definition mktime_now :: "zone \<Rightarrow> nat \<Rightarrow> nat" where
  "mktime_now z t = (case find (second_pass t) z of None \<Rightarrow> t | Some (i, a) \<Rightarrow> t - a)"

text \<open>\<open>get_totp\<close> called when the Unix time is \<open>t\<close>, in a process of zone \<open>z\<close>.\<close>

definition get_totp_at :: "zone \<Rightarrow> nat \<Rightarrow> pystr \<Rightarrow> py_error + pystr" where
  "get_totp_at z t secret = get_totp (mktime_now z t) secret"

text \<open>Every set-back of the zone starts on a 30-second boundary and is a multiple of 30.\<close>

definition window_aligned :: "zone \<Rightarrow> bool" where
  "window_aligned z = list_all (\<lambda>sb. fst sb mod 30 = 0 \<and> snd sb mod 30 = 0) z"

section \<open>The secret store (table \<open>totp_secrets\<close>)\<close>

text \<open>
  One row per identity: the columns \<open>id\<close>, \<open>email\<close>, \<open>secret\<close>,
  \<open>created_at\<close> and \<open>updated_at\<close>. The store keeps the rows and the largest
  id handed out so far (the \<open>AUTOINCREMENT\<close> counter). A timestamp is the clock
  reading in seconds that the call was given; the program never reads the two timestamp
  columns.
\<close>

record row =
  row_id :: nat
  email :: pystr
  secret :: pystr
  created_at :: nat
  updated_at :: nat

record store =
  rows :: "row list"
  seq :: nat

datatype error = Invalid_format py_error | Already_exists | Not_found | Raised py_error

text \<open>
  A statement's parameters are bound as UTF-8. A string with a surrogate code point
  (U+D800 to U+DFFF, what a byte of \<open>argv\<close> that is not UTF-8 decodes to) has no
  encoding, and \<open>cursor.execute\<close> raises \<open>UnicodeEncodeError\<close>.
\<close>

definition bindable :: "pystr \<Rightarrow> bool" where
  "bindable e = list_all (\<lambda>c. c < 55296 \<or> 57343 < c) e"

definition has_email :: "store \<Rightarrow> pystr \<Rightarrow> bool" where
  "has_email d e = (e \<in> set (map email (rows d)))"

definition next_id :: "store \<Rightarrow> nat" where
  "next_id d = Suc (fold max (map row_id (rows d)) (seq d))"

definition insert_row :: "nat \<Rightarrow> store \<Rightarrow> pystr \<Rightarrow> pystr \<Rightarrow> store" where
  "insert_row clock d e s =
    d\<lparr>rows := rows d @ [\<lparr>row_id = next_id d, email = e, secret = s,
                            created_at = clock, updated_at = clock\<rparr>],
      seq := next_id d\<rparr>"

text \<open>
  \<open>add_secret\<close>: normalise, validate by generating a code, then \<open>INSERT\<close>; the
  \<open>UNIQUE\<close> constraint on \<open>email\<close> raises \<open>IntegrityError\<close> when the identity
  is present. Every other exception inside the \<open>try\<close> is reported as an invalid
  format: those of the validation, and the one \<open>cursor.execute\<close> raises for an
  identity it cannot bind. The secret always binds, the validation has shown it to be
  ASCII. A stored identity was bound when it was inserted, so the test for presence can
  come before the test for binding. The result is the store afterwards and the message
  printed: \<open>Inr ()\<close> is success (\<open>return True\<close>), \<open>Inl\<close> an error
  (\<open>return False\<close>).
\<close>

definition add_secret ::
  "(nat \<Rightarrow> nat list) \<Rightarrow> nat \<Rightarrow> store \<Rightarrow> pystr \<Rightarrow> pystr \<Rightarrow> store \<times> (error + unit)" where
  "add_secret U clock d e raw =
    (case totp_now clock (normalize_secret U raw) of
       Inl x \<Rightarrow> (d, Inl (Invalid_format x))
     | Inr code \<Rightarrow>
         if has_email d e then (d, Inl Already_exists)
         else if bindable e then (insert_row clock d e (normalize_secret U raw), Inr ())
         else (d, Inl (Invalid_format Unicode_encode_error)))"

text \<open>
  \<open>update_secret\<close>: the same validation, then \<open>UPDATE ... WHERE email = ?\<close>; a
  row count of 0 is reported as not found, and the exception for an identity that cannot
  be bound as an invalid format, by the same handler.
\<close>

definition update_row :: "nat \<Rightarrow> pystr \<Rightarrow> pystr \<Rightarrow> row \<Rightarrow> row" where
  "update_row clock e s r = (if email r = e then r\<lparr>secret := s, updated_at := clock\<rparr> else r)"

definition update_secret ::
  "(nat \<Rightarrow> nat list) \<Rightarrow> nat \<Rightarrow> store \<Rightarrow> pystr \<Rightarrow> pystr \<Rightarrow> store \<times> (error + unit)" where
  "update_secret U clock d e raw =
    (case totp_now clock (normalize_secret U raw) of
       Inl x \<Rightarrow> (d, Inl (Invalid_format x))
     | Inr code \<Rightarrow>
         if has_email d e
         then (d\<lparr>rows := map (update_row clock e (normalize_secret U raw)) (rows d)\<rparr>, Inr ())
         else if bindable e then (d, Inl Not_found)
         else (d, Inl (Invalid_format Unicode_encode_error)))"

text \<open>
  \<open>delete_secret\<close>: \<open>DELETE ... WHERE email = ?\<close>, not found on a row count of 0.
  There is no \<open>try\<close> here: the exception for an identity that cannot be bound
  leaves the function (\<open>Raised\<close>).
\<close>

definition delete_secret :: "store \<Rightarrow> pystr \<Rightarrow> store \<times> (error + unit)" where
  "delete_secret d e =
    (if has_email d e then (d\<lparr>rows := filter (\<lambda>r. email r \<noteq> e) (rows d)\<rparr>, Inr ())
     else if bindable e then (d, Inl Not_found)
     else (d, Inl (Raised Unicode_encode_error)))"

text \<open>
  SQLite's \<open>LIKE\<close>: \<open>%\<close> (37) matches any run of characters, \<open>_\<close> (95) any
  single character, any other character itself or its other ASCII case.
\<close>

definition lower_ascii :: "nat \<Rightarrow> nat" where
  "lower_ascii c = (if 65 \<le> c \<and> c \<le> 90 then c + 32 else c)"

fun like :: "pystr \<Rightarrow> pystr \<Rightarrow> bool" where
  "like [] [] = True"
| "like [] (c # cs) = False"
| "like (p # ps) [] = (p = 37 \<and> like ps [])"
| "like (p # ps) (c # cs) =
     (if p = 37 then like ps (c # cs) \<or> like (p # ps) cs
      else (p = 95 \<or> lower_ascii p = lower_ascii c) \<and> like ps cs)"

definition select_columns :: "row \<Rightarrow> nat \<times> pystr \<times> pystr" where
  "select_columns r = (row_id r, email r, secret r)"

text \<open>
  \<open>search_emails\<close>: \<open>SELECT id, email, secret ... WHERE email LIKE '%term%'
  ORDER BY email\<close>; the term is pasted between the two \<open>%\<close> as it is. It is
  modelled for the terms the query accepts: terms that bind, without a NUL, with a
  pattern of at most 50000 bytes.
\<close>

definition search_emails :: "store \<Rightarrow> pystr \<Rightarrow> (nat \<times> pystr \<times> pystr) list" where
  "search_emails d term =
    map select_columns
      (sort_key email (filter (\<lambda>r. like ([37] @ term @ [37]) (email r)) (rows d)))"

definition get_all_emails :: "store \<Rightarrow> (nat \<times> pystr \<times> pystr) list" where
  "get_all_emails d = map select_columns (sort_key email (rows d))"

section \<open>The \<open>get\<close> command of \<open>main\<close>\<close>

text \<open>
  What the command has done when it stops or waits for input: told the user that nothing
  matches, shown a code (or died of the exception \<open>get_totp\<close> raised), or shown the
  numbered candidates and asked for a number.
\<close>

datatype outcome =
    No_match
  | Totp pystr "py_error + pystr"
  | Prompt "(nat \<times> pystr \<times> pystr) list"
  | Cancelled
  | Invalid_selection
  | Invalid_input


text \<open>
  The answer to the prompt, after \<open>strip()\<close> and \<open>int()\<close>: empty, not a number, or a
  number.
\<close>

datatype choice = Blank | Not_a_number | Number int

definition select_entry :: "nat \<Rightarrow> (nat \<times> pystr \<times> pystr) list \<Rightarrow> choice \<Rightarrow> outcome" where
  "select_entry clock displayed ch =
    (case ch of
       Blank \<Rightarrow> Cancelled
     | Not_a_number \<Rightarrow> Invalid_input
     | Number n \<Rightarrow>
         if 0 \<le> n - 1 \<and> n - 1 < int (length displayed) then
           (case displayed ! nat (n - 1) of (db_id, em, sec) \<Rightarrow> Totp em (get_totp clock sec))
         else Invalid_selection)"

section \<open>The claims' vocabulary\<close>

text \<open>
  Two raw secrets differ only in spaces and ASCII letter case when they agree once the
  spaces are removed and the letters lower-cased.
\<close>

definition same_up_to_space_case :: "pystr \<Rightarrow> pystr \<Rightarrow> bool" where
  "same_up_to_space_case a b =
    (map lower_ascii (replace_space a) = map lower_ascii (replace_space b))"

text \<open>The term occurs in the identity as a substring, ASCII case ignored.\<close>

fun prefix_ci :: "pystr \<Rightarrow> pystr \<Rightarrow> bool" where
  "prefix_ci [] s = True"
| "prefix_ci (p # ps) [] = False"
| "prefix_ci (p # ps) (c # cs) = (lower_ascii p = lower_ascii c \<and> prefix_ci ps cs)"

fun contains_ci :: "pystr \<Rightarrow> pystr \<Rightarrow> bool" where
  "contains_ci t [] = prefix_ci t []"
| "contains_ci t (c # cs) = (prefix_ci t (c # cs) \<or> contains_ci t cs)"

text \<open>A six-character decimal string, left-padded with zeros.\<close>

definition zero_padded6 :: "nat \<Rightarrow> pystr" where
  "zero_padded6 m = replicate (6 - length (str_nat m)) 48 @ str_nat m"

text \<open>The invariants the table, the binding and the validation give a store.\<close>

definition emails_bindable :: "store \<Rightarrow> bool" where
  "emails_bindable d = list_all (\<lambda>r. bindable (email r)) (rows d)"

definition unique_emails :: "store \<Rightarrow> bool" where
  "unique_emails d = distinct (map email (rows d))"

definition find_row :: "store \<Rightarrow> pystr \<Rightarrow> row option" where
  "find_row d e = find (\<lambda>r. email r = e) (rows d)"

text \<open>
  A decimal string of fixed width \<open>k\<close>, most significant digit first, and the number a
  decimal string stands for.
\<close>

definition digits :: "nat \<Rightarrow> nat \<Rightarrow> pystr" where
  "digits k m = map (\<lambda>i. 48 + m div 10 ^ i mod 10) (rev [0..<k])"

definition dec_value :: "pystr \<Rightarrow> nat" where
  "dec_value s = foldl (\<lambda>acc c. acc * 10 + (c - 48)) 0 s"

text \<open>
  Four bytes of the digest from index \<open>i\<close>, read as a big-endian unsigned 32-bit
  integer.
\<close>

definition be32 :: "bytes \<Rightarrow> nat \<Rightarrow> nat" where
  "be32 h i = h ! i * 16777216 + h ! (i + 1) * 65536 + h ! (i + 2) * 256 + h ! (i + 3)"

text \<open>Every stored secret decodes: what the validation of add and update establishes.\<close>

definition secrets_decodable :: "store \<Rightarrow> bool" where
  "secrets_decodable d =
    list_all (\<lambda>r. case byte_secret (secret r) of Inl x \<Rightarrow> False | Inr key \<Rightarrow> True) (rows d)"

section \<open>Sample data\<close>

text \<open>
  An upper-case table under which no code point beyond ASCII changes; it plays no part
  on ASCII input.
\<close>

definition plain_table :: "nat \<Rightarrow> nat list" where
  "plain_table c = [c]"

definition empty_store :: store where
  "empty_store = \<lparr>rows = [], seq = 0\<rparr>"

definition two_rows :: store where
  "two_rows = \<lparr>rows =
     [\<lparr>row_id = 1, email = str ''acb@x.io'', secret = str ''MFRGG'',
       created_at = 0, updated_at = 0\<rparr>,
      \<lparr>row_id = 2, email = str ''a_b@x.io'', secret = str ''GEZDGNBV'',
       created_at = 0, updated_at = 0\<rparr>],
     seq = 2\<rparr>"

definition rfc_secret :: pystr where
  "rfc_secret = str ''GEZDGNBVGY3TQOJQGEZDGNBVGY3TQOJQ''"

text \<open>
  A zone without a set-back, and one that sets its clocks back an hour at Unix time
  1793512800 (America/New_York on 1 November 2026, 02:00 local).
\<close>

definition utc :: zone where
  "utc = []"

definition new_york :: zone where
  "new_york = [(1793512800, 3600)]"

text \<open>The identity that the single byte \<open>0xFF\<close> in \<open>argv\<close> decodes to: U+DCFF.\<close>

definition surrogate_identity :: pystr where
  "surrogate_identity = [56575]"

section \<open>Evaluation rules\<close>

text \<open>
  Recursion over a numeral, unfolded one step at a time, so that the simplifier can run the
  definitions on concrete input.
\<close>

lemma replicate_pos: "0 < n \<Longrightarrow> replicate n x = x # replicate (n - 1) x"
  by (cases n) simp_all

lemma expand_pos:
  "0 < n \<Longrightarrow> expand n r = expand (n - 1) (rotl 1 (r ! 2 XOR r ! 7 XOR r ! 13 XOR r ! 15) # r)"
  by (cases n) simp_all

lemma blocks_pos: "0 < n \<Longrightarrow> blocks n bs = take 64 bs # blocks (n - 1) (drop 64 bs)"
  by (cases n) simp_all

lemmas b32_eval = byte_secret_def b32decode_def str_def upper_ascii_def rstrip_pad_def
  b32rev_def to_bytes5_def push_bit_eq_mult replicate_pos

lemmas sha_eval = sha1_def sha_init_def compress_def schedule_def pad_def be64_def expand_pos
  rotl_def word_of_bytes_def sha_f_def sha_K_def bytes_of_word_def blocks_pos replicate_pos

lemmas search_eval = search_emails_def two_rows_def str_def lower_ascii_def select_columns_def

lemma hmac_sha1_short:
  "length key \<le> 64 \<Longrightarrow> hmac_sha1 key msg =
     sha1 (map (\<lambda>b. b XOR 92) (key @ replicate (64 - length key) 0)
           @ sha1 (map (\<lambda>b. b XOR 54) (key @ replicate (64 - length key) 0) @ msg))"
  by (simp add: hmac_sha1_def)

section \<open>Decimal strings\<close>

lemma str_nat_small: "n < 10 \<Longrightarrow> str_nat n = [48 + n]"
  by (subst str_nat.simps) simp

lemma str_nat_big: "10 \<le> n \<Longrightarrow> str_nat n = str_nat (n div 10) @ [48 + n mod 10]"
  by (subst str_nat.simps) simp

lemma digits_0: "digits 0 m = []"
  by (simp add: digits_def)

lemma digits_Suc: "digits (Suc k) m = digits k (m div 10) @ [48 + m mod 10]"
proof -
  have "map (\<lambda>i. 48 + m div 10 ^ i mod 10) [0..<Suc k]
      = (48 + m mod 10) # map (\<lambda>i. 48 + m div 10 div 10 ^ i mod 10) [0..<k]"
    by (simp add: upt_conv_Cons map_Suc_upt [symmetric] div_mult2_eq del: upt_Suc)
  then have "rev (map (\<lambda>i. 48 + m div 10 ^ i mod 10) [0..<Suc k])
      = rev (map (\<lambda>i. 48 + m div 10 div 10 ^ i mod 10) [0..<k]) @ [48 + m mod 10]"
    by simp
  then show ?thesis
    by (simp add: digits_def rev_map)
qed

lemma length_digits: "length (digits k m) = k"
  by (simp add: digits_def)

lemma digits_zero: "digits k 0 = replicate k 48"
  by (induction k) (simp_all add: digits_0 digits_Suc replicate_append_same)

lemma digits_are_decimal: "c \<in> set (digits k m) \<Longrightarrow> 48 \<le> c \<and> c \<le> 57"
  by (auto simp: digits_def)

lemma str_nat_split:
  "0 < q \<Longrightarrow> m < 10 ^ k \<Longrightarrow> str_nat (q * 10 ^ k + m) = str_nat q @ digits k m"
proof (induction k arbitrary: m)
  case 0
  then show ?case by (simp add: digits_0)
next
  case (Suc k)
  let ?n = "q * 10 ^ Suc k + m"
  have big: "10 \<le> ?n"
  proof -
    have "(10::nat) \<le> 10 ^ Suc k" by simp
    with Suc.prems(1) have "1 * 10 \<le> q * 10 ^ Suc k" by (intro mult_le_mono) simp_all
    then show ?thesis by (simp del: power_Suc)
  qed
  have d: "?n div 10 = q * 10 ^ k + m div 10"
    by simp
  have e: "?n = 10 * (q * 10 ^ k) + m"
    by simp
  have r: "?n mod 10 = m mod 10"
    by (simp only: e mod_mult_self4)
  have small: "m div 10 < 10 ^ k"
    using Suc.prems(2) by (simp add: less_mult_imp_div_less mult.commute)
  have "str_nat ?n = str_nat (?n div 10) @ [48 + ?n mod 10]"
    using big by (rule str_nat_big)
  also have "\<dots> = str_nat (q * 10 ^ k + m div 10) @ [48 + m mod 10]"
    by (simp only: d r)
  also have "\<dots> = str_nat q @ digits k (m div 10) @ [48 + m mod 10]"
    using Suc.IH [OF Suc.prems(1) small] by simp
  finally show ?case
    by (simp add: digits_Suc)
qed

lemma zero_pad_digits:
  "m < 10 ^ Suc k \<Longrightarrow> replicate (Suc k - length (str_nat m)) 48 @ str_nat m = digits (Suc k) m"
proof (induction k arbitrary: m)
  case 0
  then show ?case
    by (simp add: str_nat_small digits_Suc digits_0)
next
  case (Suc k)
  show ?case
  proof (cases "m < 10")
    case True
    then show ?thesis
      by (simp add: str_nat_small digits_Suc [of "Suc k"] digits_zero replicate_append_same
          del: replicate.simps)
  next
    case False
    then have big: "10 \<le> m" by simp
    have small: "m div 10 < 10 ^ Suc k"
      using Suc.prems by (simp add: less_mult_imp_div_less mult.commute)
    have "replicate (Suc (Suc k) - length (str_nat m)) 48 @ str_nat m
        = (replicate (Suc k - length (str_nat (m div 10))) 48 @ str_nat (m div 10))
          @ [48 + m mod 10]"
      by (simp add: str_nat_big [OF big])
    also have "\<dots> = digits (Suc k) (m div 10) @ [48 + m mod 10]"
      by (simp only: Suc.IH [OF small])
    finally show ?thesis
      by (simp add: digits_Suc [of "Suc k"])
  qed
qed

lemma zero_padded6_digits: "v < 1000000 \<Longrightarrow> zero_padded6 v = digits 6 v"
  using zero_pad_digits [of v 5] by (simp add: zero_padded6_def)

lemma dec_value_snoc: "dec_value (xs @ [c]) = dec_value xs * 10 + (c - 48)"
  by (simp add: dec_value_def)

lemma dec_value_digits: "dec_value (digits k m) = m mod 10 ^ k"
proof (induction k arbitrary: m)
  case 0
  then show ?case by (simp add: digits_0 dec_value_def)
next
  case (Suc k)
  have "m mod 10 ^ Suc k = m mod 10 + 10 * (m div 10 mod 10 ^ k)"
    by (simp add: mod_mult2_eq)
  then show ?case
    by (simp add: digits_Suc dec_value_snoc Suc.IH)
qed

text \<open>The last six characters of \<open>str(10_000_000_000 + v)\<close> are \<open>v\<close> zero-padded.\<close>

lemma otp_format:
  assumes "v < 1000000"
  shows "drop (length (str_nat (10000000000 + v)) - 6) (str_nat (10000000000 + v))
         = zero_padded6 v"
proof -
  have s: "str_nat (10000 * 10 ^ 6 + v) = str_nat 10000 @ digits 6 v"
    using assms by (intro str_nat_split) simp_all
  have l: "length (str_nat 10000) = 5"
    by (simp add: str_nat.simps)
  have z: "zero_padded6 v = digits 6 v"
    using assms by (rule zero_padded6_digits)
  have "10000 * 10 ^ 6 + v = 10000000000 + v" by simp
  with s have "str_nat (10000000000 + v) = str_nat 10000 @ digits 6 v" by simp
  then show ?thesis
    by (simp add: l z length_digits)
qed

section \<open>The digest and its truncation\<close>

lemma length_digest_of: "length (digest_of s) = 20"
  by (cases s) (simp add: bytes_of_word_def)

lemma digest_of_bytes: "b \<in> set (digest_of s) \<Longrightarrow> b < 256"
  by (cases s) (auto simp: bytes_of_word_def)

lemma length_hmac_sha1: "length (hmac_sha1 key msg) = 20"
  by (simp add: hmac_sha1_def Let_def sha1_def length_digest_of)

lemma hmac_sha1_bytes: "b \<in> set (hmac_sha1 key msg) \<Longrightarrow> b < 256"
  by (auto simp: hmac_sha1_def Let_def sha1_def dest: digest_of_bytes)

lemma or_shift: "x < 2 ^ n \<Longrightarrow> push_bit n y OR x = y * 2 ^ n + (x::nat)"
proof -
  assume "x < 2 ^ n"
  then have x: "take_bit n x = x"
    by (simp add: take_bit_nat_eq_self)
  have "push_bit n y AND take_bit n x = 0"
    by (auto simp: bit_eq_iff bit_simps)
  then have "push_bit n y + take_bit n x = push_bit n y OR take_bit n x"
    by (rule disjunctive_add_eq_or)
  with x show ?thesis
    by (simp add: push_bit_eq_mult)
qed

lemma and_127: "(a::nat) AND 127 = a mod 128"
proof -
  have "a AND mask 7 = take_bit 7 a"
    by (simp only: take_bit_eq_mask)
  then show ?thesis
    by (simp add: take_bit_eq_mod mask_numeral)
qed

lemma and_255: "(b::nat) < 256 \<Longrightarrow> b AND 255 = b"
proof -
  assume "b < 256"
  then have "take_bit 8 b = b"
    by (simp add: take_bit_nat_eq_self)
  moreover have "b AND mask 8 = take_bit 8 b"
    by (simp only: take_bit_eq_mask)
  ultimately show ?thesis
    by (simp add: mask_numeral)
qed

lemma and_15: "(a::nat) AND 15 = a mod 16"
proof -
  have "a AND mask 4 = take_bit 4 a"
    by (simp only: take_bit_eq_mask)
  then show ?thesis
    by (simp add: take_bit_eq_mod mask_numeral)
qed

lemma pack_bytes:
  assumes "b < 256" and "c < 256" and "d < (256::nat)"
  shows "push_bit 24 (a AND 127) OR push_bit 16 (b AND 255) OR push_bit 8 (c AND 255)
           OR (d AND 255)
         = (a * 16777216 + b * 65536 + c * 256 + d) mod 2147483648"
proof -
  let ?a = "a mod 128"
  let ?r = "b * 65536 + (c * 256 + d)"
  have 1: "push_bit 8 c OR d = c * 256 + d"
    using or_shift [of d 8 c] assms by simp
  have 2: "push_bit 16 b OR (c * 256 + d) = ?r"
    using or_shift [of "c * 256 + d" 16 b] assms by simp
  have 3: "push_bit 24 ?a OR ?r = ?a * 16777216 + ?r"
    using or_shift [of ?r 24 ?a] assms by simp
  have r: "?r < 16777216"
    using assms by simp
  have "?a < 128"
    by simp
  with r have x: "?a * 16777216 + ?r < 2147483648"
    by simp
  have "a * 16777216 = (a div 128 * 128 + ?a) * 16777216"
    by simp
  also have "\<dots> = a div 128 * 2147483648 + ?a * 16777216"
    by (simp only: add_mult_distrib)
  finally have "a * 16777216 + b * 65536 + c * 256 + d
      = a div 128 * 2147483648 + (?a * 16777216 + ?r)"
    by simp
  then have "(a * 16777216 + b * 65536 + c * 256 + d) mod 2147483648
      = (?a * 16777216 + ?r) mod 2147483648"
    by (simp only: mod_mult_self3)
  with x have "(a * 16777216 + b * 65536 + c * 256 + d) mod 2147483648 = ?a * 16777216 + ?r"
    by simp
  then show ?thesis
    using assms by (simp add: and_127 and_255 1 2 3)
qed

text \<open>
  The bit operations of \<open>generate_otp\<close> compute the four bytes at the offset as a
  big-endian integer with the top bit cleared.
\<close>

lemma truncate_digest_arith:
  assumes "length h = 20" and "\<forall>b \<in> set h. b < 256"
  shows "truncate_digest h = be32 h (last h mod 16) mod 2147483648"
proof -
  let ?o = "last h mod 16"
  have o: "?o < 16" by simp
  from assms o have b: "h ! (?o + 1) < 256" "h ! (?o + 2) < 256" "h ! (?o + 3) < 256"
    by simp_all
  have "truncate_digest h =
      push_bit 24 (h ! ?o AND 127) OR push_bit 16 (h ! (?o + 1) AND 255)
      OR push_bit 8 (h ! (?o + 2) AND 255) OR (h ! (?o + 3) AND 255)"
    by (simp only: truncate_digest_def Let_def and_15)
  also have "\<dots> = be32 h ?o mod 2147483648"
    by (simp only: pack_bytes [OF b] be32_def)
  finally show ?thesis .
qed

section \<open>Code generation\<close>

lemma generate_otp_Inr:
  "byte_secret s = Inr key \<Longrightarrow>
   generate_otp s n =
     Inr (zero_padded6 (truncate_digest (hmac_sha1 key (int_to_bytestring n)) mod 1000000))"
  by (simp add: generate_otp_def Let_def otp_format)

lemma generate_otp_Inl: "byte_secret s = Inl x \<Longrightarrow> generate_otp s n = Inl x"
  by (simp add: generate_otp_def)

lemma totp_now_Inr_ex: "byte_secret s = Inr key \<Longrightarrow> \<exists>code. totp_now clock s = Inr code"
  by (simp add: totp_now_def generate_otp_Inr)

lemma totp_now_Inl: "byte_secret s = Inl x \<Longrightarrow> totp_now clock s = Inl x"
  by (simp add: totp_now_def generate_otp_Inl)

lemma totp_now_Inr_decodable:
  "totp_now clock s = Inr code \<Longrightarrow> (case byte_secret s of Inl x \<Rightarrow> False | Inr key \<Rightarrow> True)"
  by (auto simp: totp_now_def generate_otp_def split: sum.splits)

subsection \<open>The reference vectors of RFC 6238\<close>

lemma rfc_key: "byte_secret rfc_secret = Inr (str ''12345678901234567890'')"
  by (simp add: rfc_secret_def b32_eval)

lemma rfc_counters:
  "int_to_bytestring (timecode 59) = [0, 0, 0, 0, 0, 0, 0, 1]"
  "int_to_bytestring (timecode 1111111109) = [0, 0, 0, 0, 2, 53, 35, 236]"
  by (simp_all add: timecode_def int_to_bytestring_def le_bytes.simps drop_bit_eq_div
      replicate_pos)

lemma rfc_hmac_1:
  "hmac_sha1 (str ''12345678901234567890'') [0, 0, 0, 0, 0, 0, 0, 1] =
    [117, 164, 138, 25, 212, 203, 225, 0, 100, 78, 138, 193, 57, 126, 234, 116, 122, 45, 51, 171]"
  by (simp add: hmac_sha1_short str_def sha_eval del: One_nat_def)

lemma rfc_hmac_2:
  "hmac_sha1 (str ''12345678901234567890'') [0, 0, 0, 0, 2, 53, 35, 236] =
    [39, 140, 2, 229, 54, 16, 248, 76, 64, 189, 145, 53, 172, 212, 16, 16, 18, 65, 10, 20]"
  by (simp add: hmac_sha1_short str_def sha_eval del: One_nat_def)

lemma rfc_truncations:
  "truncate_digest [117, 164, 138, 25, 212, 203, 225, 0, 100, 78, 138, 193, 57, 126, 234, 116,
      122, 45, 51, 171] = 1094287082"
  "truncate_digest [39, 140, 2, 229, 54, 16, 248, 76, 64, 189, 145, 53, 172, 212, 16, 16, 18, 65,
      10, 20] = 907081804"
  by (simp_all add: truncate_digest_def push_bit_eq_mult)

lemma rfc_codes:
  "zero_padded6 (1094287082 mod 1000000) = str ''287082''"
  "zero_padded6 (907081804 mod 1000000) = str ''081804''"
  by (simp_all add: zero_padded6_def str_nat.simps str_def)

text \<open>
  C1. From the secret \<open>GEZDGNBVGY3TQOJQGEZDGNBVGY3TQOJQ\<close>, whose key is the ASCII text
  \<open>12345678901234567890\<close>, \<open>get_totp\<close> returns \<open>287082\<close> when the clock reads 59
  and \<open>081804\<close> when it reads 1111111109.
\<close>

theorem get_totp_rfc6238:
  "byte_secret rfc_secret = Inr (str ''12345678901234567890'')
   \<and> get_totp 59 rfc_secret = Inr (str ''287082'')
   \<and> get_totp 1111111109 rfc_secret = Inr (str ''081804'')"
proof (intro conjI)
  show "byte_secret rfc_secret = Inr (str ''12345678901234567890'')"
    by (rule rfc_key)
  show "get_totp 59 rfc_secret = Inr (str ''287082'')"
    by (simp only: get_totp_def totp_now_def generate_otp_Inr [OF rfc_key] rfc_counters
        rfc_hmac_1 rfc_truncations rfc_codes)
  show "get_totp 1111111109 rfc_secret = Inr (str ''081804'')"
    by (simp only: get_totp_def totp_now_def generate_otp_Inr [OF rfc_key] rfc_counters
        rfc_hmac_2 rfc_truncations rfc_codes)
qed

text \<open>
  C7. For every secret that decodes to a key and every clock reading, the code is the
  truncated HMAC-SHA1 value modulo 1,000,000 written as a decimal string of exactly six
  characters, left-padded with zeros; the truncated value is the big-endian 32-bit integer
  at the offset given by the low four bits of the last digest byte, top bit cleared.
\<close>

theorem get_totp_six_digits:
  assumes "byte_secret s = Inr key"
  shows "\<exists>code digest value.
           digest = hmac_sha1 key (int_to_bytestring (clock div 30))
           \<and> value = truncate_digest digest mod 1000000
           \<and> truncate_digest digest = be32 digest (last digest mod 16) mod 2147483648
           \<and> get_totp clock s = Inr code
           \<and> code = zero_padded6 value
           \<and> length code = 6
           \<and> list_all (\<lambda>c. 48 \<le> c \<and> c \<le> 57) code
           \<and> dec_value code = value"
proof -
  let ?h = "hmac_sha1 key (int_to_bytestring (clock div 30))"
  let ?v = "truncate_digest ?h mod 1000000"
  have v: "?v < 1000000" by simp
  have t: "truncate_digest ?h = be32 ?h (last ?h mod 16) mod 2147483648"
    by (intro truncate_digest_arith length_hmac_sha1 ballI) (rule hmac_sha1_bytes)
  have g: "get_totp clock s = Inr (zero_padded6 ?v)"
    using assms by (simp add: get_totp_def totp_now_def timecode_def generate_otp_Inr)
  have z: "zero_padded6 ?v = digits 6 ?v"
    using v by (rule zero_padded6_digits)
  have l: "length (zero_padded6 ?v) = 6"
    by (simp only: z length_digits)
  have d: "list_all (\<lambda>c. 48 \<le> c \<and> c \<le> 57) (zero_padded6 ?v)"
    unfolding z list_all_iff using digits_are_decimal by blast
  have "dec_value (zero_padded6 ?v) = ?v mod 10 ^ 6"
    by (simp only: z dec_value_digits)
  then have e: "dec_value (zero_padded6 ?v) = ?v"
    by simp
  from t g l d e show ?thesis by blast
qed

theorem get_totp_six_digits_witness:
  "byte_secret rfc_secret = Inr (str ''12345678901234567890'')
   \<and> (\<exists>code. get_totp 59 rfc_secret = Inr code \<and> length code = 6
        \<and> list_all (\<lambda>c. 48 \<le> c \<and> c \<le> 57) code)"
  using get_totp_six_digits [OF rfc_key, of 59] rfc_key by blast

subsection \<open>The clock reading and the window\<close>

lemma mktime_now_exact: "\<not> in_repeated_hour z t \<Longrightarrow> mktime_now z t = t"
  by (simp add: mktime_now_def in_repeated_hour_def list_ex_iff find_None_iff [THEN iffD2])

lemma get_totp_at_exact: "\<not> in_repeated_hour z t \<Longrightarrow> get_totp_at z t s = get_totp t s"
  by (simp add: get_totp_at_def mktime_now_exact)

lemma mktime_now_utc: "mktime_now utc t = t"
  by (simp add: mktime_now_def utc_def)

lemma mktime_now_new_york:
  "mktime_now new_york 1793514600 = 1793511000"
  "in_repeated_hour new_york 1793514600"
  by (simp_all add: mktime_now_def in_repeated_hour_def new_york_def second_pass_def)

text \<open>
  The reference vectors hold at those Unix times in every zone in which they are not in
  a repeated hour.
\<close>

lemma get_totp_at_rfc6238:
  assumes "\<not> in_repeated_hour z 59" and "\<not> in_repeated_hour z 1111111109"
  shows "get_totp_at z 59 rfc_secret = Inr (str ''287082'')"
    and "get_totp_at z 1111111109 rfc_secret = Inr (str ''081804'')"
proof -
  show "get_totp_at z 59 rfc_secret = Inr (str ''287082'')"
    by (simp only: get_totp_at_exact [OF assms(1)] get_totp_def totp_now_def
        generate_otp_Inr [OF rfc_key] rfc_counters rfc_hmac_1 rfc_truncations rfc_codes)
  show "get_totp_at z 1111111109 rfc_secret = Inr (str ''081804'')"
    by (simp only: get_totp_at_exact [OF assms(2)] get_totp_def totp_now_def
        generate_otp_Inr [OF rfc_key] rfc_counters rfc_hmac_2 rfc_truncations rfc_codes)
qed

text \<open>
  Within one zone whose set-backs fall on window boundaries, two Unix times of the same
  window give readings of the same window, in a repeated hour too.
\<close>

lemma aligned_le_iff: "i mod 30 = 0 \<Longrightarrow> (i::nat) \<le> t \<longleftrightarrow> i div 30 \<le> t div 30"
proof -
  assume "i mod 30 = 0"
  then have "i div 30 * 30 = i"
    by (simp add: mod_eq_0_iff_dvd)
  then have "i \<le> t \<longleftrightarrow> i div 30 * 30 \<le> t"
    by simp
  also have "\<dots> \<longleftrightarrow> i div 30 \<le> t div 30"
    by (simp add: less_eq_div_iff_mult_less_eq)
  finally show ?thesis .
qed

lemma aligned_diff_div:
  assumes "a mod 30 = 0" and "a \<le> t"
  shows "(t - a) div 30 = t div 30 - a div (30::nat)"
proof -
  from assms(1) have a: "a div 30 * 30 = a"
    by (simp add: mod_eq_0_iff_dvd)
  from assms(2) have "t = (t - a) + a div 30 * 30"
    by (simp add: a)
  then have "t div 30 = ((t - a) + a div 30 * 30) div 30"
    by simp
  also have "\<dots> = (t - a) div 30 + a div 30"
    by (simp only: div_mult_self1 [OF _] div_mult_self3)
  finally show ?thesis
    by simp
qed

lemma second_pass_window:
  assumes "i mod 30 = 0" and "a mod 30 = 0" and "t1 div 30 = t2 div 30"
  shows "second_pass t1 (i, a) = second_pass t2 (i, a)"
proof -
  have l: "i \<le> t1 \<longleftrightarrow> i \<le> t2"
    using assms(3) by (simp add: aligned_le_iff [OF assms(1)])
  have "(i + a) mod 30 = 0"
    using assms(1,2) by (simp add: mod_eq_0_iff_dvd)
  then have "i + a \<le> t1 \<longleftrightarrow> i + a \<le> t2"
    using assms(3) by (simp add: aligned_le_iff)
  then have u: "t1 < i + a \<longleftrightarrow> t2 < i + a"
    by (simp add: not_le [symmetric])
  show ?thesis
    by (simp add: second_pass_def l u)
qed

lemma set_back_window:
  assumes "a mod 30 = 0" and "a \<le> t1" and "a \<le> t2" and "t1 div 30 = t2 div 30"
  shows "(t1 - a) div 30 = (t2 - a) div (30::nat)"
  using assms by (simp add: aligned_diff_div)

lemma mktime_now_window:
  assumes "window_aligned z" and "t1 div 30 = t2 div 30"
  shows "mktime_now z t1 div 30 = mktime_now z t2 div 30"
  using assms(1)
proof (induction z)
  case Nil
  then show ?case by (simp add: mktime_now_def assms(2))
next
  case (Cons sb z)
  obtain i a where sb: "sb = (i, a)"
    by (cases sb) auto
  from Cons.prems sb have al: "i mod 30 = 0" "a mod 30 = 0" and rest: "window_aligned z"
    by (simp_all add: window_aligned_def)
  have same: "second_pass t1 (i, a) = second_pass t2 (i, a)"
    using al assms(2) by (rule second_pass_window)
  show ?case
  proof (cases "second_pass t1 (i, a)")
    case True
    with same have t2: "second_pass t2 (i, a)" by simp
    from True t2 have "a \<le> t1" "a \<le> t2"
      by (simp_all add: second_pass_def)
    then have "(t1 - a) div 30 = (t2 - a) div 30"
      using al(2) assms(2) by (intro set_back_window)
    with True t2 sb show ?thesis
      by (simp add: mktime_now_def)
  next
    case False
    with same have t2: "\<not> second_pass t2 (i, a)" by simp
    from False t2 sb Cons.IH [OF rest] show ?thesis
      by (simp add: mktime_now_def)
  qed
qed

text \<open>
  The result depends on the secret only through its key bytes and on the clock only
  through the window of the reading.
\<close>

lemma get_totp_reading_window:
  assumes "byte_secret s1 = byte_secret s2" and "c1 div 30 = c2 div 30"
  shows "get_totp c1 s1 = get_totp c2 s2"
  using assms by (simp add: get_totp_def totp_now_def timecode_def generate_otp_def)

lemma get_totp_at_window:
  assumes "window_aligned z" and "byte_secret s1 = byte_secret s2" and "t1 div 30 = t2 div 30"
  shows "get_totp_at z t1 s1 = get_totp_at z t2 s2"
  unfolding get_totp_at_def
  using assms(2) mktime_now_window [OF assms(1,3)] by (rule get_totp_reading_window)

subsection \<open>The repeated hour\<close>

lemma repeated_counters:
  "int_to_bytestring (timecode 1793514600) = [0, 0, 0, 0, 3, 144, 58, 140]"
  "int_to_bytestring (timecode 1793511000) = [0, 0, 0, 0, 3, 144, 58, 20]"
  by (simp_all add: timecode_def int_to_bytestring_def le_bytes.simps drop_bit_eq_div
      replicate_pos)

lemma repeated_hmac_1:
  "hmac_sha1 (str ''12345678901234567890'') [0, 0, 0, 0, 3, 144, 58, 140] =
    [16, 198, 37, 83, 98, 115, 132, 14, 25, 247, 207, 198, 137, 244, 229, 217, 153, 196, 204, 199]"
  by (simp add: hmac_sha1_short str_def sha_eval del: One_nat_def)

lemma repeated_hmac_2:
  "hmac_sha1 (str ''12345678901234567890'') [0, 0, 0, 0, 3, 144, 58, 20] =
    [145, 59, 140, 28, 196, 120, 125, 146, 89, 26, 218, 181, 25, 124, 70, 112, 70, 96, 170, 95]"
  by (simp add: hmac_sha1_short str_def sha_eval del: One_nat_def)

lemma repeated_truncations:
  "truncate_digest [16, 198, 37, 83, 98, 115, 132, 14, 25, 247, 207, 198, 137, 244, 229, 217,
      153, 196, 204, 199] = 236582863"
  "truncate_digest [145, 59, 140, 28, 196, 120, 125, 146, 89, 26, 218, 181, 25, 124, 70, 112,
      70, 96, 170, 95] = 1883660458"
  by (simp_all add: truncate_digest_def push_bit_eq_mult)

lemma repeated_codes:
  "zero_padded6 (236582863 mod 1000000) = str ''582863''"
  "zero_padded6 (1883660458 mod 1000000) = str ''660458''"
  by (simp_all add: zero_padded6_def str_nat.simps str_def)

text \<open>
  C8. The claim fails in the hour a zone repeats. At Unix time 1793514600 a process
  without a set-back returns the code of that window, \<open>582863\<close>; a process in New York,
  for the same secret at the same Unix time, returns \<open>660458\<close>, the code of the window
  an hour earlier.
\<close>

theorem get_totp_at_repeated_hour:
  "get_totp_at utc 1793514600 rfc_secret = Inr (str ''582863'')
   \<and> get_totp_at new_york 1793514600 rfc_secret = Inr (str ''660458'')
   \<and> get_totp_at utc 1793511000 rfc_secret = Inr (str ''660458'')"
proof (intro conjI)
  show "get_totp_at utc 1793514600 rfc_secret = Inr (str ''582863'')"
    by (simp only: get_totp_at_def mktime_now_utc get_totp_def totp_now_def
        generate_otp_Inr [OF rfc_key] repeated_counters repeated_hmac_1 repeated_truncations
        repeated_codes)
  show "get_totp_at new_york 1793514600 rfc_secret = Inr (str ''660458'')"
    by (simp only: get_totp_at_def mktime_now_new_york get_totp_def totp_now_def
        generate_otp_Inr [OF rfc_key] repeated_counters repeated_hmac_2 repeated_truncations
        repeated_codes)
  show "get_totp_at utc 1793511000 rfc_secret = Inr (str ''660458'')"
    by (simp only: get_totp_at_def mktime_now_utc get_totp_def totp_now_def
        generate_otp_Inr [OF rfc_key] repeated_counters repeated_hmac_2 repeated_truncations
        repeated_codes)
qed

section \<open>Normalisation\<close>

lemma upper_cp_lower_ascii: "upper_cp U (lower_ascii c) = upper_cp U c"
  by (simp add: upper_cp_def lower_ascii_def)

lemma upper_via_lower: "upper U (map lower_ascii s) = upper U s"
  by (simp add: upper_def comp_def upper_cp_lower_ascii)

lemma normalize_ascii:
  "list_all (\<lambda>c. c < 128) raw \<Longrightarrow> normalize_secret U raw = map upper_ascii (replace_space raw)"
  by (induction raw)
    (simp_all add: normalize_secret_def upper_def replace_space_def upper_cp_def upper_ascii_def)

lemma normalize_plain_ascii:
  "normalize_secret plain_table (str ''MFRGG'') = str ''MFRGG''"
  "normalize_secret plain_table (str ''1'') = str ''1''"
  "normalize_secret plain_table (str ''  '') = []"
  by (simp_all add: normalize_secret_def upper_def upper_cp_def replace_space_def str_def)

text \<open>
  C2, as the code has it. Normalisation removes the space characters (U+0020) and
  upper-cases what is left; two raw inputs that differ only in space characters and in
  the case of ASCII letters normalise to the same string.
\<close>

theorem normalize_space_case:
  assumes "same_up_to_space_case a b"
  shows "normalize_secret U a = normalize_secret U b
         \<and> normalize_secret U a = upper U (filter (\<lambda>c. c \<noteq> 32) a)"
proof
  have "normalize_secret U a = upper U (map lower_ascii (replace_space a))"
    by (simp add: normalize_secret_def upper_via_lower)
  also have "\<dots> = upper U (map lower_ascii (replace_space b))"
    using assms by (simp add: same_up_to_space_case_def)
  also have "\<dots> = normalize_secret U b"
    by (simp add: normalize_secret_def upper_via_lower)
  finally show "normalize_secret U a = normalize_secret U b" .
  show "normalize_secret U a = upper U (filter (\<lambda>c. c \<noteq> 32) a)"
    by (simp add: normalize_secret_def replace_space_def)
qed

text \<open>The instance of the claim: \<open>jbsw y3dp\<close> and \<open>JBSWY3DP\<close>.\<close>

theorem normalize_space_case_witness:
  "same_up_to_space_case (str ''jbsw y3dp'') (str ''JBSWY3DP'')
   \<and> normalize_secret plain_table (str ''jbsw y3dp'')
       = normalize_secret plain_table (str ''JBSWY3DP'')"
  using normalize_space_case [of "str ''jbsw y3dp''" "str ''JBSWY3DP''" plain_table]
  by (simp add: same_up_to_space_case_def str_def replace_space_def lower_ascii_def)

text \<open>
  C2, as the claim has it, fails on other whitespace: a tab (9) stays, so \<open>j<tab>b\<close>
  and \<open>JB\<close> normalise differently.
\<close>

theorem normalize_keeps_tab:
  "normalize_secret plain_table [106, 9, 98] = [74, 9, 66]
   \<and> normalize_secret plain_table [74, 66] = [74, 66]
   \<and> normalize_secret plain_table [106, 9, 98] \<noteq> normalize_secret plain_table [74, 66]"
  by (simp add: normalize_secret_def upper_def upper_cp_def replace_space_def)

section \<open>Adding and updating\<close>

lemma byte_secret_empty: "byte_secret [] = Inr []"
  by (simp add: b32_eval)

lemma byte_secret_samples:
  "byte_secret (str ''MFRGG'') = Inr (str ''abc'')"
  "byte_secret (str ''GEZDGNBV'') = Inr (str ''12345'')"
  "byte_secret (str ''1'') = Inl Non_base32_digit"
  by (simp_all add: b32_eval)

lemma sample_identities_bindable:
  "bindable (str ''a@x.io'')" "bindable (str ''zed@x.io'')" "\<not> bindable surrogate_identity"
  by (simp_all add: bindable_def str_def surrogate_identity_def)

lemma b32decode_non_ascii: "list_ex (\<lambda>c. 128 \<le> c) s0 \<Longrightarrow> b32decode s0 = Inl Non_ascii"
  by (simp add: b32decode_def)

lemma decodable_ascii:
  assumes "byte_secret s = Inr key"
  shows "list_all (\<lambda>c. c < 128) s"
proof (rule ccontr)
  assume "\<not> list_all (\<lambda>c. c < 128) s"
  then have "list_ex (\<lambda>c. 128 \<le> c) s"
    by (auto simp: list_all_iff list_ex_iff not_less)
  then have "list_ex (\<lambda>c. 128 \<le> c)
      (if length s mod 8 \<noteq> 0 then s @ replicate (8 - length s mod 8) 61 else s)"
    by (simp add: list_ex_iff)
  then have "byte_secret s = Inl Non_ascii"
    unfolding byte_secret_def Let_def by (rule b32decode_non_ascii)
  with assms show False
    by simp
qed

lemma ascii_bindable: "list_all (\<lambda>c. c < 128) s \<Longrightarrow> bindable s"
  by (auto simp: bindable_def list_all_iff)

text \<open>A secret that passes the validation is one that binds.\<close>

lemma decodable_bindable: "byte_secret s = Inr key \<Longrightarrow> bindable s"
  by (rule ascii_bindable) (rule decodable_ascii)

lemma add_secret_Invalid_format_iff:
  assumes "bindable e"
  shows "snd (add_secret U clock d e raw) = Inl (Invalid_format x)
         \<longleftrightarrow> byte_secret (normalize_secret U raw) = Inl x"
proof (cases "byte_secret (normalize_secret U raw)")
  case (Inl y)
  then show ?thesis by (simp add: add_secret_def totp_now_Inl)
next
  case (Inr key)
  then obtain code where "totp_now clock (normalize_secret U raw) = Inr code"
    using totp_now_Inr_ex by blast
  with Inr assms show ?thesis by (simp add: add_secret_def)
qed

text \<open>
  C3, as the code has it. When the normalised secret does not decode (a character
  outside the alphabet or outside ASCII, or wrong padding), no code is generated from it,
  add fails with the invalid-format error and the store is unchanged.
\<close>

theorem add_secret_rejects_undecodable:
  assumes "byte_secret (normalize_secret U raw) = Inl x"
  shows "add_secret U clock d e raw = (d, Inl (Invalid_format x))
         \<and> get_totp clock (normalize_secret U raw) = Inl x"
  using assms by (simp add: add_secret_def get_totp_def totp_now_Inl)

theorem add_secret_rejects_undecodable_witness:
  "byte_secret (normalize_secret plain_table (str ''1'')) = Inl Non_base32_digit
   \<and> add_secret plain_table 59 empty_store (str ''a@x.io'') (str ''1'')
       = (empty_store, Inl (Invalid_format Non_base32_digit))"
  using add_secret_rejects_undecodable
    [of plain_table "str ''1''" Non_base32_digit 59 empty_store "str ''a@x.io''"]
  by (simp add: normalize_plain_ascii byte_secret_samples)

text \<open>
  C3, as the claim has it, fails on a secret of spaces only: its normalised form is
  empty and decodes to zero bytes, the validation passes and the row is inserted.
\<close>

theorem add_secret_accepts_empty:
  "normalize_secret plain_table (str ''  '') = []
   \<and> byte_secret (normalize_secret plain_table (str ''  '')) = Inr []
   \<and> add_secret plain_table 59 empty_store (str ''a@x.io'') (str ''  '')
       = (\<lparr>rows = [\<lparr>row_id = 1, email = str ''a@x.io'', secret = [],
                      created_at = 59, updated_at = 59\<rparr>], seq = 1\<rparr>, Inr ())"
proof -
  obtain code where "totp_now 59 [] = Inr code"
    using totp_now_Inr_ex [OF byte_secret_empty] by blast
  then show ?thesis
    by (simp add: add_secret_def normalize_plain_ascii byte_secret_empty has_email_def
        empty_store_def insert_row_def next_id_def sample_identities_bindable)
qed

text \<open>
  C5. When the identity is present and the secret passes the validation, add fails with
  the already-exists error and returns the store it was given.
\<close>

theorem add_secret_existing:
  assumes "has_email d e" and "byte_secret (normalize_secret U raw) = Inr key"
  shows "add_secret U clock d e raw = (d, Inl Already_exists)"
proof -
  obtain code where "totp_now clock (normalize_secret U raw) = Inr code"
    using totp_now_Inr_ex [OF assms(2)] by blast
  with assms(1) show ?thesis by (simp add: add_secret_def)
qed

theorem add_secret_existing_witness:
  "has_email two_rows (str ''acb@x.io'')
   \<and> byte_secret (normalize_secret plain_table (str ''MFRGG'')) = Inr (str ''abc'')
   \<and> add_secret plain_table 59 two_rows (str ''acb@x.io'') (str ''MFRGG'')
       = (two_rows, Inl Already_exists)"
  using add_secret_existing
    [of two_rows "str ''acb@x.io''" plain_table "str ''MFRGG''" "str ''abc''" 59]
  by (simp add: normalize_plain_ascii byte_secret_samples has_email_def two_rows_def)




section \<open>Store invariants\<close>

lemma unique_emails_add:
  "unique_emails d \<Longrightarrow> unique_emails (fst (add_secret U clock d e raw))"
  by (auto simp: add_secret_def unique_emails_def insert_row_def has_email_def split: sum.splits)

lemma map_email_update_row: "map email (map (update_row clock e s) xs) = map email xs"
  by (induction xs) (simp_all add: update_row_def)

lemma unique_emails_update:
  "unique_emails d \<Longrightarrow> unique_emails (fst (update_secret U clock d e raw))"
  by (auto simp: update_secret_def unique_emails_def map_email_update_row
      simp del: map_map split: sum.splits)

lemma unique_emails_delete: "unique_emails d \<Longrightarrow> unique_emails (fst (delete_secret d e))"
  by (auto simp: delete_secret_def unique_emails_def distinct_map_filter)

lemma secrets_decodable_add:
  "secrets_decodable d \<Longrightarrow> secrets_decodable (fst (add_secret U clock d e raw))"
  by (auto simp: add_secret_def secrets_decodable_def insert_row_def split: sum.splits
      dest: totp_now_Inr_decodable)

lemma secrets_decodable_update:
  "secrets_decodable d \<Longrightarrow> secrets_decodable (fst (update_secret U clock d e raw))"
  by (auto simp: update_secret_def secrets_decodable_def update_row_def list_all_iff
      split: sum.splits dest: totp_now_Inr_decodable)

lemma secrets_decodable_delete:
  "secrets_decodable d \<Longrightarrow> secrets_decodable (fst (delete_secret d e))"
  by (auto simp: delete_secret_def secrets_decodable_def list_all_iff)

text \<open>Every stored identity binds, so a present identity is one that binds.\<close>

lemma emails_bindable_add:
  "emails_bindable d \<Longrightarrow> emails_bindable (fst (add_secret U clock d e raw))"
  by (auto simp: add_secret_def emails_bindable_def insert_row_def split: sum.splits)

lemma emails_bindable_update:
  "emails_bindable d \<Longrightarrow> emails_bindable (fst (update_secret U clock d e raw))"
  by (auto simp: update_secret_def emails_bindable_def update_row_def list_all_iff
      split: sum.splits)

lemma emails_bindable_delete:
  "emails_bindable d \<Longrightarrow> emails_bindable (fst (delete_secret d e))"
  by (auto simp: delete_secret_def emails_bindable_def list_all_iff)

lemma has_email_bindable: "emails_bindable d \<Longrightarrow> has_email d e \<Longrightarrow> bindable e"
  by (auto simp: emails_bindable_def has_email_def list_all_iff)

lemma two_rows_invariants:
  "unique_emails two_rows" "secrets_decodable two_rows" "emails_bindable two_rows"
proof -
  show "unique_emails two_rows"
    by (simp add: unique_emails_def two_rows_def str_def)
  show "secrets_decodable two_rows"
    by (simp add: secrets_decodable_def two_rows_def byte_secret_samples)
  show "emails_bindable two_rows"
    by (simp add: emails_bindable_def two_rows_def bindable_def str_def)
qed

section \<open>Deleting\<close>

lemma find_filter_other:
  "e' \<noteq> e \<Longrightarrow>
   find (\<lambda>r. email r = e') (filter (\<lambda>r. email r \<noteq> e) xs) = find (\<lambda>r. email r = e') xs"
  by (induction xs) auto

lemma find_filter_same: "find (\<lambda>r. email r = e) (filter (\<lambda>r. email r \<noteq> e) xs) = None"
  by (induction xs) auto

lemma length_filter_distinct:
  "distinct (map email xs) \<Longrightarrow> e \<in> set (map email xs) \<Longrightarrow>
   Suc (length (filter (\<lambda>r. email r \<noteq> e) xs)) = length xs"
proof (induction xs)
  case Nil
  then show ?case by simp
next
  case (Cons r xs)
  show ?case
  proof (cases "email r = e")
    case True
    with Cons.prems(1) have "e \<notin> email ` set xs" by simp
    then have "\<forall>r' \<in> set xs. email r' \<noteq> e" by blast
    then have "filter (\<lambda>r. email r \<noteq> e) xs = xs" by (simp add: filter_id_conv)
    with True show ?thesis by simp
  next
    case False
    with Cons show ?thesis by auto
  qed
qed

text \<open>
  C10. Deleting a present identity succeeds and removes the row of that identity and no
  other: the identity is gone, every other identity finds the row it found before, the
  rows left are the old rows without that identity's, and there is one row less.
\<close>

theorem delete_secret_frame:
  assumes "has_email d e" and "unique_emails d"
  shows "snd (delete_secret d e) = Inr ()
         \<and> find_row (fst (delete_secret d e)) e = None
         \<and> (\<forall>e'. e' \<noteq> e \<longrightarrow> find_row (fst (delete_secret d e)) e' = find_row d e')
         \<and> set (rows (fst (delete_secret d e))) = set (rows d) - {r. email r = e}
         \<and> Suc (length (rows (fst (delete_secret d e)))) = length (rows d)
         \<and> seq (fst (delete_secret d e)) = seq d"
proof -
  have r: "delete_secret d e = (d\<lparr>rows := filter (\<lambda>r. email r \<noteq> e) (rows d)\<rparr>, Inr ())"
    using assms(1) by (simp add: delete_secret_def)
  have l: "Suc (length (filter (\<lambda>r. email r \<noteq> e) (rows d))) = length (rows d)"
    using assms by (intro length_filter_distinct) (simp_all add: unique_emails_def has_email_def)
  show ?thesis
    unfolding r using l by (auto simp add: find_row_def find_filter_same find_filter_other)
qed

theorem delete_secret_frame_witness:
  "has_email two_rows (str ''acb@x.io'') \<and> unique_emails two_rows
   \<and> fst (delete_secret two_rows (str ''acb@x.io'')) =
       \<lparr>rows = [\<lparr>row_id = 2, email = str ''a_b@x.io'', secret = str ''GEZDGNBV'',
                  created_at = 0, updated_at = 0\<rparr>], seq = 2\<rparr>
   \<and> find_row (fst (delete_secret two_rows (str ''acb@x.io''))) (str ''acb@x.io'') = None"
proof -
  have h: "has_email two_rows (str ''acb@x.io'')"
    by (simp add: has_email_def two_rows_def)
  have u: "unique_emails two_rows"
    by (rule two_rows_invariants(1))
  have f: "fst (delete_secret two_rows (str ''acb@x.io'')) =
       \<lparr>rows = [\<lparr>row_id = 2, email = str ''a_b@x.io'', secret = str ''GEZDGNBV'',
                  created_at = 0, updated_at = 0\<rparr>], seq = 2\<rparr>"
    by (simp add: delete_secret_def has_email_def two_rows_def str_def)
  from delete_secret_frame [OF h u] h u f show ?thesis
    by simp
qed

section \<open>Searching\<close>

lemma like_percent: "like [37] s"
  by (induction s) simp_all

lemma like_prefix_ci:
  "37 \<notin> set t \<Longrightarrow> 95 \<notin> set t \<Longrightarrow> like (t @ [37]) s = prefix_ci t s"
proof (induction t arbitrary: s)
  case Nil
  then show ?case by (simp add: like_percent)
next
  case (Cons p ps)
  then show ?case by (cases s) auto
qed

lemma like_contains_ci:
  "37 \<notin> set t \<Longrightarrow> 95 \<notin> set t \<Longrightarrow> like ([37] @ t @ [37]) s = contains_ci t s"
  by (induction s) (simp_all add: like_prefix_ci)

lemma prefix_ci_iff: "prefix_ci t s \<longleftrightarrow> (\<exists>suf. map lower_ascii s = map lower_ascii t @ suf)"
proof (induction t arbitrary: s)
  case Nil
  then show ?case by simp
next
  case (Cons p ps)
  then show ?case by (cases s) auto
qed

text \<open>\<open>contains_ci\<close> is substring containment once both sides are lower-cased.\<close>

lemma contains_ci_iff:
  "contains_ci t s \<longleftrightarrow> (\<exists>pre suf. map lower_ascii s = pre @ map lower_ascii t @ suf)"
proof (induction s)
  case Nil
  then show ?case by (simp add: prefix_ci_iff)
next
  case (Cons c cs)
  show ?case
  proof
    assume "contains_ci t (c # cs)"
    then consider "prefix_ci t (c # cs)" | "contains_ci t cs" by auto
    then show "\<exists>pre suf. map lower_ascii (c # cs) = pre @ map lower_ascii t @ suf"
    proof cases
      case 1
      then obtain suf where "map lower_ascii (c # cs) = map lower_ascii t @ suf"
        using prefix_ci_iff by blast
      then have "map lower_ascii (c # cs) = [] @ map lower_ascii t @ suf" by simp
      then show ?thesis by blast
    next
      case 2
      then obtain pre suf where "map lower_ascii cs = pre @ map lower_ascii t @ suf"
        using Cons.IH by blast
      then have "map lower_ascii (c # cs) = (lower_ascii c # pre) @ map lower_ascii t @ suf"
        by simp
      then show ?thesis by blast
    qed
  next
    assume "\<exists>pre suf. map lower_ascii (c # cs) = pre @ map lower_ascii t @ suf"
    then obtain pre suf where e: "map lower_ascii (c # cs) = pre @ map lower_ascii t @ suf"
      by blast
    show "contains_ci t (c # cs)"
    proof (cases pre)
      case Nil
      with e have "prefix_ci t (c # cs)" using prefix_ci_iff by auto
      then show ?thesis by simp
    next
      case (Cons x pre')
      with e have "map lower_ascii cs = pre' @ map lower_ascii t @ suf" by simp
      then have "contains_ci t cs" using Cons.IH by blast
      then show ?thesis by simp
    qed
  qed
qed

text \<open>
  A term without \<open>%\<close> and \<open>_\<close> finds the rows whose identity contains it, in the
  order of the identities; the empty term finds every row.
\<close>

lemma search_emails_plain_term:
  assumes "37 \<notin> set t" and "95 \<notin> set t"
  shows "set (search_emails d t) = select_columns ` {r \<in> set (rows d). contains_ci t (email r)}"
    and "sorted (map (\<lambda>(i, e, s). e) (search_emails d t))"
proof -
  have l: "\<And>s. like (37 # t @ [37]) s = contains_ci t s"
    using like_contains_ci [OF assms] by simp
  show "set (search_emails d t) = select_columns ` {r \<in> set (rows d). contains_ci t (email r)}"
    by (simp add: search_emails_def l)
  have "map (\<lambda>(i, e, s). e) (search_emails d t)
        = map email (sort_key email (filter (\<lambda>r. like ([37] @ t @ [37]) (email r)) (rows d)))"
    by (simp add: search_emails_def select_columns_def comp_def)
  then show "sorted (map (\<lambda>(i, e, s). e) (search_emails d t))"
    by (simp only: sorted_sort_key)
qed

lemma search_emails_empty_term: "search_emails d [] = get_all_emails d"
proof -
  have c: "\<And>s. contains_ci [] s"
  proof -
    fix s :: pystr
    show "contains_ci [] s" by (cases s) simp_all
  qed
  have "\<And>s. like [37, 37] s"
    using like_contains_ci [of "[]"] c by simp
  then show ?thesis
    by (simp add: search_emails_def get_all_emails_def)
qed


text \<open>
  C4. The claim fails on a term with a wildcard: the term \<open>a_b\<close> also finds
  \<open>acb@x.io\<close>, which does not contain it.
\<close>

theorem search_emails_wildcard:
  "search_emails two_rows (str ''a_b'') =
     [(2, str ''a_b@x.io'', str ''GEZDGNBV''), (1, str ''acb@x.io'', str ''MFRGG'')]
   \<and> \<not> contains_ci (str ''a_b'') (str ''acb@x.io'')"
  by (simp add: search_eval)

section \<open>The \<open>get\<close> command\<close>




end
